theory Spec2Isabelle
  imports Main
begin

section \<open>lib/types.js: constants and records\<close>

text \<open>
  The settings object kept under the storage key \<open>flowrunner_settings\<close>. A stored
  object may lack a key (JavaScript then reads \<open>undefined\<close>), so every field is
  optional; \<open>DefaultSettings\<close> has all four.
\<close>

record settings =
  maxLogs :: "int option"
  stepDelay :: "int option"
  elementTimeout :: "int option"
  notifyOnComplete :: "bool option"

definition DefaultSettings :: settings where
  "DefaultSettings =
     \<lparr>maxLogs = Some 100, stepDelay = Some 500, elementTimeout = Some 10000,
      notifyOnComplete = Some True\<rparr>"

datatype ExecutionStatus = SUCCESS | FAILED | PARTIAL | RUNNING | PENDING

text \<open>The log object built by \<open>createLog\<close>.\<close>

record log_entry =
  log_id :: string
  log_taskId :: string
  log_taskName :: string
  log_status :: ExecutionStatus
  log_message :: string
  log_duration :: int
  log_executedAt :: int

text \<open>
  \<open>createLog\<close>: the identifier (from \<open>generateId\<close>, time and random derived) and
  the current time \<open>Date.now()\<close> are taken as arguments; a missing or empty message
  becomes the empty string and a missing or zero duration becomes 0.
\<close>

definition createLog ::
  "string \<Rightarrow> int \<Rightarrow> string \<Rightarrow> string \<Rightarrow> ExecutionStatus \<Rightarrow> string option \<Rightarrow> int option \<Rightarrow> log_entry" where
  "createLog newId now taskId taskName status message duration =
     \<lparr>log_id = newId, log_taskId = taskId, log_taskName = taskName, log_status = status,
      log_message = (case message of None \<Rightarrow> [] | Some m \<Rightarrow> m),
      log_duration = (case duration of None \<Rightarrow> 0 | Some d \<Rightarrow> d),
      log_executedAt = now\<rparr>"

section \<open>lib/storage.js: the log store\<close>

text \<open>
  \<open>chrome.storage.local\<close>, restricted to the two keys \<open>addLog\<close> reads:
  \<open>None\<close> is a key that was never written.
\<close>

record storage =
  flowrunner_logs :: "log_entry list option"
  flowrunner_settings :: "settings option"

text \<open>
  \<open>Array.prototype.slice(0, end)\<close>: an undefined \<open>end\<close> keeps the whole array, a
  negative one counts from the end of the array, and the result never reads past the end.
\<close>

definition slice0 :: "'a list \<Rightarrow> int option \<Rightarrow> 'a list" where
  "slice0 xs end =
     (case end of
        None \<Rightarrow> xs
      | Some e \<Rightarrow>
          if e < 0 then take (nat (int (length xs) + e)) xs else take (nat e) xs)"

text \<open>
  \<open>addLog\<close>: read logs and settings (with their fallbacks), \<open>unshift\<close> the new
  entry to the front, keep the first \<open>maxLogs\<close> entries and write them back. The
  stored list is therefore ordered newest first. The JavaScript result is always
  \<open>{success: true}\<close>; the model returns the storage after the write.
\<close>

definition addLog :: "log_entry \<Rightarrow> storage \<Rightarrow> storage" where
  "addLog log st =
     (let logs = (case flowrunner_logs st of None \<Rightarrow> [] | Some l \<Rightarrow> l);
          settings = (case flowrunner_settings st of None \<Rightarrow> DefaultSettings | Some s \<Rightarrow> s);
          logs' = log # logs;
          trimmedLogs = slice0 logs' (maxLogs settings)
      in st\<lparr>flowrunner_logs := Some trimmedLogs\<rparr>)"

section \<open>lib/storage.js: the recurring schedule\<close>





















section \<open>lib/parser.js: JavaScript values\<close>

text \<open>
  The values the parser handles: what \<open>JSON.parse\<close> can return, and
  \<open>undefined\<close> for a property that is absent. Numbers are integers here (no claim
  depends on a fraction). An object is its list of properties in insertion order.
\<close>

datatype jsval =
    JUndefined
  | JNull
  | JBool bool
  | JNum int
  | JStr string
  | JArr "jsval list"
  | JObj "(string \<times> jsval) list"

datatype exn = SyntaxError | TypeError

text \<open>Truthiness, as \<open>!v\<close>, \<open>v || w\<close> and \<open>if (v)\<close> use it.\<close>

fun truthy :: "jsval \<Rightarrow> bool" where
  "truthy JUndefined = False"
| "truthy JNull = False"
| "truthy (JBool b) = b"
| "truthy (JNum n) = (n \<noteq> 0)"
| "truthy (JStr s) = (s \<noteq> [])"
| "truthy (JArr xs) = True"
| "truthy (JObj kvs) = True"

fun nullish :: "jsval \<Rightarrow> bool" where
  "nullish JUndefined = True"
| "nullish JNull = True"
| "nullish v = False"

fun isArray :: "jsval \<Rightarrow> bool" where
  "isArray (JArr xs) = True"
| "isArray v = False"

text \<open>\<open>typeof v === 'object'\<close>: objects, arrays and \<open>null\<close>.\<close>

fun typeofObject :: "jsval \<Rightarrow> bool" where
  "typeofObject JNull = True"
| "typeofObject (JArr xs) = True"
| "typeofObject (JObj kvs) = True"
| "typeofObject v = False"

text \<open>
  Reading a property \<open>v.k\<close> of a value that is not \<open>null\<close> or \<open>undefined\<close>:
  an object gives the property's value or \<open>undefined\<close>; for the property names the
  parser reads (none of them a built-in of arrays, strings, numbers or booleans) every
  other value gives \<open>undefined\<close>. \<open>getProp\<close> is the read itself, which throws a
  \<open>TypeError\<close> on \<open>null\<close> and \<open>undefined\<close>.
\<close>

fun field :: "jsval \<Rightarrow> string \<Rightarrow> jsval" where
  "field (JObj kvs) k = (case map_of kvs k of None \<Rightarrow> JUndefined | Some v \<Rightarrow> v)"
| "field v k = JUndefined"

definition getProp :: "jsval \<Rightarrow> string \<Rightarrow> exn + jsval" where
  "getProp v k = (if nullish v then Inl TypeError else Inr (field v k))"

text \<open>
  Assigning a property of an object under construction: an existing key keeps its
  place and takes the new value, a new key goes to the end.
\<close>

fun setProp :: "(string \<times> jsval) list \<Rightarrow> string \<Rightarrow> jsval \<Rightarrow> (string \<times> jsval) list" where
  "setProp [] k v = [(k, v)]"
| "setProp ((k', v') # kvs) k v =
     (if k' = k then (k, v) # kvs else (k', v') # setProp kvs k v)"

text \<open>
  \<open>Object.assign(target, source)\<close> for the sources that reach it: an object's own
  properties are assigned in order. For every other source nothing is copied (a number
  or boolean has no own properties; the index properties of a string or array source
  are not modelled).
\<close>

fun objectAssign :: "(string \<times> jsval) list \<Rightarrow> jsval \<Rightarrow> (string \<times> jsval) list" where
  "objectAssign target (JObj kvs) = foldl (\<lambda>t (k, v). setProp t k v) target kvs"
| "objectAssign target v = target"

section \<open>lib/parser.js: RecorderParser\<close>

definition SUPPORTED_TYPES :: "string list" where
  "SUPPORTED_TYPES =
     [''navigate'', ''click'', ''doubleClick'', ''change'', ''keyDown'', ''keyUp'',
      ''scroll'', ''hover'', ''waitForElement'', ''waitForExpression'', ''setViewport'']"

text \<open>
  The four error strings of \<open>validate\<close>, in source order: invalid JSON format,
  missing \<open>steps\<close> array, empty \<open>steps\<close> array, and "step \<open>n\<close> lacks the
  \<open>type\<close> property" with the one-based position \<open>n\<close>.
\<close>

datatype validation_error =
    InvalidFormat
  | MissingStepsArray
  | EmptyStepsArray
  | MissingType nat

datatype validation = Valid | Invalid validation_error

text \<open>
  The loop of \<open>validate\<close> over the steps, from the zero-based position \<open>i\<close>.
  Reading \<open>step.type\<close> throws on a \<open>null\<close> step. The warning printed for a
  type outside \<open>SUPPORTED_TYPES\<close> does not change the result and is left out.
\<close>

fun validateSteps :: "nat \<Rightarrow> jsval list \<Rightarrow> exn + validation" where
  "validateSteps i [] = Inr Valid"
| "validateSteps i (step # rest) =
     (case getProp step ''type'' of
        Inl e \<Rightarrow> Inl e
      | Inr ty \<Rightarrow>
          if \<not> truthy ty then Inr (Invalid (MissingType (i + 1)))
          else validateSteps (i + 1) rest)"

definition validate :: "jsval \<Rightarrow> exn + validation" where
  "validate json =
     (if \<not> truthy json \<or> \<not> typeofObject json then Inr (Invalid InvalidFormat)
      else
        (case field json ''steps'' of
           JArr steps \<Rightarrow>
             if length steps = 0 then Inr (Invalid EmptyStepsArray)
             else validateSteps 0 steps
         | _ \<Rightarrow> Inr (Invalid MissingStepsArray)))"

definition normalizeSelectors :: "jsval \<Rightarrow> jsval" where
  "normalizeSelectors selectors =
     (case selectors of
        JArr groups \<Rightarrow>
          JArr (map (\<lambda>selectorGroup.
                 if isArray selectorGroup then selectorGroup else JArr [selectorGroup]) groups)
      | _ \<Rightarrow> JArr [])"

text \<open>The \<open>switch\<close> of \<open>transformStep\<close>, on an object that already has \<open>type\<close> and \<open>index\<close>.\<close>

definition copyByType :: "jsval \<Rightarrow> (string \<times> jsval) list \<Rightarrow> (string \<times> jsval) list" where
  "copyByType step transformed =
     (let ty = field step ''type'' in
      if ty = JStr ''navigate'' then
        setProp transformed ''url'' (field step ''url'')
      else if ty = JStr ''click'' \<or> ty = JStr ''doubleClick'' \<or> ty = JStr ''hover'' then
        setProp (setProp (setProp (setProp transformed
          ''selectors'' (normalizeSelectors (field step ''selectors'')))
          ''offsetX'' (field step ''offsetX''))
          ''offsetY'' (field step ''offsetY''))
          ''button'' (field step ''button'')
      else if ty = JStr ''change'' then
        setProp (setProp transformed
          ''selectors'' (normalizeSelectors (field step ''selectors'')))
          ''value'' (field step ''value'')
      else if ty = JStr ''keyDown'' \<or> ty = JStr ''keyUp'' then
        setProp transformed ''key'' (field step ''key'')
      else if ty = JStr ''scroll'' then
        setProp (setProp (setProp transformed
          ''x'' (field step ''x''))
          ''y'' (field step ''y''))
          ''selectors'' (if truthy (field step ''selectors'')
                         then normalizeSelectors (field step ''selectors'') else JNull)
      else if ty = JStr ''waitForElement'' then
        setProp (setProp (setProp transformed
          ''selectors'' (normalizeSelectors (field step ''selectors'')))
          ''timeout'' (field step ''timeout''))
          ''visible'' (field step ''visible'')
      else if ty = JStr ''waitForExpression'' then
        setProp (setProp transformed
          ''expression'' (field step ''expression''))
          ''timeout'' (field step ''timeout'')
      else if ty = JStr ''setViewport'' then
        setProp (setProp (setProp (setProp transformed
          ''width'' (field step ''width''))
          ''height'' (field step ''height''))
          ''deviceScaleFactor'' (field step ''deviceScaleFactor''))
          ''isMobile'' (field step ''isMobile'')
      else objectAssign transformed step)"

definition transformStep :: "jsval \<Rightarrow> nat \<Rightarrow> exn + jsval" where
  "transformStep step index =
     (case getProp step ''type'' of
        Inl e \<Rightarrow> Inl e
      | Inr ty \<Rightarrow>
          (let transformed = [(''type'', ty), (''index'', JNum (int index))];
               t1 = copyByType step transformed;
               t2 = (if field step ''timeout'' \<noteq> JUndefined
                     then setProp t1 ''timeout'' (field step ''timeout'') else t1);
               t3 = (if truthy (field step ''assertedEvents'')
                     then setProp t2 ''assertedEvents'' (field step ''assertedEvents'') else t2)
           in Inr (JObj t3)))"

text \<open>
  \<open>extractStartUrl\<close>: \<open>steps.find(s => s.type === 'navigate')\<close>, then
  \<open>navigateStep?.url || null\<close>.
\<close>

fun findNavigate :: "jsval list \<Rightarrow> exn + jsval" where
  "findNavigate [] = Inr JUndefined"
| "findNavigate (s # rest) =
     (case getProp s ''type'' of
        Inl e \<Rightarrow> Inl e
      | Inr ty \<Rightarrow> if ty = JStr ''navigate'' then Inr s else findNavigate rest)"

definition extractStartUrl :: "jsval list \<Rightarrow> exn + jsval" where
  "extractStartUrl steps =
     (case findNavigate steps of
        Inl e \<Rightarrow> Inl e
      | Inr navigateStep \<Rightarrow>
          if nullish navigateStep then Inr JNull
          else if truthy (field navigateStep ''url'') then Inr (field navigateStep ''url'')
          else Inr JNull)"

text \<open>\<open>array.map((step, index) => f(step, index))\<close> with a callback that may throw.\<close>

fun mapIndexed :: "('a \<Rightarrow> nat \<Rightarrow> exn + 'b) \<Rightarrow> nat \<Rightarrow> 'a list \<Rightarrow> exn + 'b list" where
  "mapIndexed f i [] = Inr []"
| "mapIndexed f i (x # xs) =
     (case f x i of
        Inl e \<Rightarrow> Inl e
      | Inr y \<Rightarrow> (case mapIndexed f (i + 1) xs of Inl e \<Rightarrow> Inl e | Inr ys \<Rightarrow> Inr (y # ys)))"

record parsed =
  d_title :: jsval
  d_startUrl :: jsval
  d_steps :: "jsval list"
  d_originalJson :: jsval

text \<open>
  \<open>transform\<close>. Reading \<open>json.title\<close> throws on \<open>null\<close>; \<open>json.steps.map\<close>
  throws unless \<open>json.steps\<close> is an array.
\<close>

definition transform :: "jsval \<Rightarrow> exn + parsed" where
  "transform json =
     (case getProp json ''title'' of
        Inl e \<Rightarrow> Inl e
      | Inr t \<Rightarrow>
          (let title = (if truthy t then t else JStr []) in
           case field json ''steps'' of
             JArr rawSteps \<Rightarrow>
               (case mapIndexed transformStep 0 rawSteps of
                  Inl e \<Rightarrow> Inl e
                | Inr steps \<Rightarrow>
                    (case extractStartUrl steps of
                       Inl e \<Rightarrow> Inl e
                     | Inr startUrl \<Rightarrow>
                         Inr \<lparr>d_title = title, d_startUrl = startUrl, d_steps = steps,
                              d_originalJson = json\<rparr>))
           | _ \<Rightarrow> Inl TypeError))"

text \<open>
  The result of \<open>parse\<close>: \<open>{success: true, data}\<close> or \<open>{success: false, error}\<close>,
  where the error is a string of \<open>validate\<close> or the "JSON parse failed" string built
  from a caught exception.
\<close>

datatype parse_error = ValidationFailed validation_error | JsonParseFailed exn

datatype parse_result = Success parsed | Failure parse_error

text \<open>
  \<open>parse\<close>. \<open>JSON.parse\<close> is the platform's and is a parameter: it returns the
  decoded value or throws a \<open>SyntaxError\<close>. The body of the \<open>try\<close> block is
  \<open>parseBody\<close>; \<open>parse\<close> adds the \<open>catch\<close>. The outer sum is what reaches the
  caller: \<open>Inl\<close> would be an exception leaving \<open>parse\<close>.
\<close>

definition parseBody :: "(string \<Rightarrow> exn + jsval) \<Rightarrow> string \<Rightarrow> exn + parse_result" where
  "parseBody JSON_parse jsonString =
     (case JSON_parse jsonString of
        Inl e \<Rightarrow> Inl e
      | Inr json \<Rightarrow>
          (case validate json of
             Inl e \<Rightarrow> Inl e
           | Inr (Invalid err) \<Rightarrow> Inr (Failure (ValidationFailed err))
           | Inr Valid \<Rightarrow>
               (case transform json of
                  Inl e \<Rightarrow> Inl e
                | Inr data \<Rightarrow> Inr (Success data))))"

definition parse :: "(string \<Rightarrow> exn + jsval) \<Rightarrow> string \<Rightarrow> exn + parse_result" where
  "parse JSON_parse jsonString =
     (case parseBody JSON_parse jsonString of
        Inl error \<Rightarrow> Inr (Failure (JsonParseFailed error))
      | Inr result \<Rightarrow> Inr result)"

section \<open>content/executor.js: steps, page and trace\<close>

text \<open>
  A step as the executor reads it. A selector group is an array of alternatives or,
  in a flat list, a single string. \<open>None\<close> is a property that is \<open>null\<close> or
  \<open>undefined\<close>.
\<close>

datatype selector_group = Alternatives "string list" | Single string

record step =
  step_type :: string
  step_selectors :: "selector_group list option"
  step_value :: string
  step_key :: string
  step_x :: "int option"
  step_y :: "int option"
  step_timeout :: "nat option"
  step_expression :: string
  step_url :: string

text \<open>
  The page. A DOM lookup finds a node, finds none, or throws (an invalid selector or
  XPath expression); an expression evaluates to a truthy value, a falsy one, or throws.
  \<open>page\<close> is the document at one instant; the \<open>browser\<close> gives the document at
  each reading of the clock (milliseconds), so a page may change while the executor
  waits.
\<close>

type_synonym element = nat

datatype lookup = Found element | NoMatch | Thrown

datatype evaluation = Truthy | Falsy | EvalThrown

record page =
  querySelector :: "string \<Rightarrow> lookup"
  evaluateXPath :: "string \<Rightarrow> lookup"
  activeElement :: "element option"
  evalExpression :: "string \<Rightarrow> evaluation"

type_synonym browser = "nat \<Rightarrow> page"

text \<open>
  The errors a step handler throws: the four "target element not found" errors (click,
  double click, input, hover), the expression-wait timeout, and the \<open>TypeError\<close> of
  dispatching a key event when no element has the focus.
\<close>

datatype step_error =
    ClickTargetNotFound
  | DoubleClickTargetNotFound
  | InputTargetNotFound
  | HoverTargetNotFound
  | ExpressionTimeout
  | NoActiveElement

text \<open>The final message: the last error's message, or the fixed completion message.\<close>

datatype run_message = ErrorMessage step_error | ExecutionComplete

text \<open>
  What the executor does to the outside, in order: the DOM lookups and actions, the
  \<open>delay\<close> calls, the console lines that start a step and report its failure (with
  the zero-based index of the step), the warning for a selector whose evaluation threw,
  and the result message sent to the service worker. Other console output is left out.
\<close>

datatype dom_action =
    ScrollIntoView
  | Click
  | DblClick
  | Focus
  | SetValue string
  | InputEvent
  | ChangeEvent
  | KeyDownEvent string
  | KeyUpEvent string
  | MouseOver
  | ScrollTo int int

datatype trace_event =
    StepStarted nat
  | StepFailedIgnored nat step_error
  | StepFailed nat step_error
  | Delayed nat
  | QueriedSelector string
  | QueriedXPath string
  | SelectorFailed "string option"
  | Evaluated string
  | Performed element dom_action
  | WindowScrolled int int
  | UnknownStepType string
  | ResultSent string string ExecutionStatus run_message nat

definition Config_stepDelay :: nat where
  "Config_stepDelay = 500"

definition Config_elementTimeout :: nat where
  "Config_elementTimeout = 10000"

section \<open>content/executor.js: findElement\<close>

definition startsWith :: "string \<Rightarrow> string \<Rightarrow> bool" where
  "startsWith s p = (take (length p) s = p)"

definition dquote :: char where
  "dquote = CHR 0x22"

text \<open>
  The body of the \<open>try\<close> block for one selector string: the strategy is chosen by
  the prefix, which \<open>replace\<close> removes. For \<open>aria/\<close> the second lookup happens
  only when the first finds nothing.
\<close>

definition evalSelector :: "page \<Rightarrow> string \<Rightarrow> lookup \<times> trace_event list" where
  "evalSelector pg selector =
     (if startsWith selector ''xpath/'' then
        (let xpath = drop (length ''xpath/'') selector
         in (evaluateXPath pg xpath, [QueriedXPath xpath]))
      else if startsWith selector ''aria/'' then
        (let ariaLabel = drop (length ''aria/'') selector;
             byLabel = ''[aria-label='' @ [dquote] @ ariaLabel @ [dquote] @ '']'';
             byLabelledBy = ''[aria-labelledby='' @ [dquote] @ ariaLabel @ [dquote] @ '']''
         in case querySelector pg byLabel of
              NoMatch \<Rightarrow>
                (querySelector pg byLabelledBy,
                 [QueriedSelector byLabel, QueriedSelector byLabelledBy])
            | r \<Rightarrow> (r, [QueriedSelector byLabel]))
      else if startsWith selector ''pierce/'' then
        (let pierceSelector = drop (length ''pierce/'') selector
         in (querySelector pg pierceSelector, [QueriedSelector pierceSelector]))
      else (querySelector pg selector, [QueriedSelector selector]))"

text \<open>
  \<open>Array.isArray(selectorGroup) ? selectorGroup[0] : selectorGroup\<close>; an empty
  array gives \<open>undefined\<close>.
\<close>

fun firstSelector :: "selector_group \<Rightarrow> string option" where
  "firstSelector (Alternatives []) = None"
| "firstSelector (Alternatives (s # alternatives)) = Some s"
| "firstSelector (Single s) = Some s"

text \<open>
  One pass of the \<open>for\<close> loop over the selector groups. A found node ends the pass.
  An exception (a lookup that throws, or \<open>startsWith\<close> called on \<open>undefined\<close>)
  is caught, a warning is printed, and the pass goes on with the next group.
\<close>

fun pollGroups :: "page \<Rightarrow> selector_group list \<Rightarrow> element option \<times> trace_event list" where
  "pollGroups pg [] = (None, [])"
| "pollGroups pg (selectorGroup # rest) =
     (case firstSelector selectorGroup of
        None \<Rightarrow>
          (let (found, evs) = pollGroups pg rest in (found, SelectorFailed None # evs))
      | Some selector \<Rightarrow>
          (case evalSelector pg selector of
             (Found element, evs) \<Rightarrow> (Some element, evs)
           | (NoMatch, evs) \<Rightarrow>
               (let (found, evs') = pollGroups pg rest in (found, evs @ evs'))
           | (Thrown, evs) \<Rightarrow>
               (let (found, evs') = pollGroups pg rest
                in (found, evs @ SelectorFailed (Some selector) # evs'))))"

text \<open>
  The \<open>while\<close> loop of \<open>findElement\<close>: poll while less than \<open>timeout\<close> ms have
  passed since \<open>startTime\<close>, waiting 100 ms after a pass that found nothing. Only
  \<open>delay\<close> moves the clock. The result is the node or \<open>null\<close>, the clock at the
  return, and the trace.
\<close>

function findElementLoop ::
  "browser \<Rightarrow> selector_group list \<Rightarrow> nat \<Rightarrow> nat \<Rightarrow> nat \<Rightarrow> element option \<times> nat \<times> trace_event list" where
  "findElementLoop br selectors startTime timeout clock =
     (if clock - startTime < timeout then
        (case pollGroups (br clock) selectors of
           (Some element, evs) \<Rightarrow> (Some element, clock, evs)
         | (None, evs) \<Rightarrow>
             (let (found, clock', evs') =
                    findElementLoop br selectors startTime timeout (clock + 100)
              in (found, clock', evs @ Delayed 100 # evs')))
      else (None, clock, []))"
  by pat_completeness auto
termination
  by (relation "measure (\<lambda>(br, selectors, startTime, timeout, clock). startTime + timeout - clock)")
     auto

declare findElementLoop.simps [simp del]

definition findElement ::
  "browser \<Rightarrow> selector_group list option \<Rightarrow> nat \<Rightarrow> nat \<Rightarrow> element option \<times> nat \<times> trace_event list" where
  "findElement br selectors timeout clock =
     (case selectors of
        None \<Rightarrow> (None, clock, [])
      | Some [] \<Rightarrow> (None, clock, [])
      | Some groups \<Rightarrow> findElementLoop br groups clock timeout clock)"

section \<open>content/executor.js: the step handlers\<close>

text \<open>
  A handler returns the error it throws (\<open>None\<close> when it completes), the clock at
  that point and its trace. \<open>findElement\<close> without a second argument uses the default
  timeout \<open>Config.elementTimeout\<close>.
\<close>

type_synonym handler_result = "step_error option \<times> nat \<times> trace_event list"

definition handleNavigate :: "browser \<Rightarrow> step \<Rightarrow> nat \<Rightarrow> handler_result" where
  "handleNavigate br s clock = (None, clock, [])"

definition handleClick :: "browser \<Rightarrow> step \<Rightarrow> nat \<Rightarrow> handler_result" where
  "handleClick br s clock =
     (case findElement br (step_selectors s) Config_elementTimeout clock of
        (None, clock', evs) \<Rightarrow> (Some ClickTargetNotFound, clock', evs)
      | (Some element, clock', evs) \<Rightarrow>
          (None, clock' + 200,
           evs @ [Performed element ScrollIntoView, Delayed 200, Performed element Click]))"

definition handleDoubleClick :: "browser \<Rightarrow> step \<Rightarrow> nat \<Rightarrow> handler_result" where
  "handleDoubleClick br s clock =
     (case findElement br (step_selectors s) Config_elementTimeout clock of
        (None, clock', evs) \<Rightarrow> (Some DoubleClickTargetNotFound, clock', evs)
      | (Some element, clock', evs) \<Rightarrow>
          (None, clock' + 200,
           evs @ [Performed element ScrollIntoView, Delayed 200, Performed element DblClick]))"

definition handleChange :: "browser \<Rightarrow> step \<Rightarrow> nat \<Rightarrow> handler_result" where
  "handleChange br s clock =
     (case findElement br (step_selectors s) Config_elementTimeout clock of
        (None, clock', evs) \<Rightarrow> (Some InputTargetNotFound, clock', evs)
      | (Some element, clock', evs) \<Rightarrow>
          (None, clock' + 200,
           evs @ [Performed element ScrollIntoView, Delayed 200, Performed element Focus,
                  Performed element (SetValue []), Performed element (SetValue (step_value s)),
                  Performed element InputEvent, Performed element ChangeEvent]))"

definition handleKeyDown :: "browser \<Rightarrow> step \<Rightarrow> nat \<Rightarrow> handler_result" where
  "handleKeyDown br s clock =
     (case activeElement (br clock) of
        None \<Rightarrow> (Some NoActiveElement, clock, [])
      | Some element \<Rightarrow> (None, clock, [Performed element (KeyDownEvent (step_key s))]))"

definition handleKeyUp :: "browser \<Rightarrow> step \<Rightarrow> nat \<Rightarrow> handler_result" where
  "handleKeyUp br s clock =
     (case activeElement (br clock) of
        None \<Rightarrow> (Some NoActiveElement, clock, [])
      | Some element \<Rightarrow> (None, clock, [Performed element (KeyUpEvent (step_key s))]))"

text \<open>\<open>step.x || 0\<close>.\<close>

definition orZero :: "int option \<Rightarrow> int" where
  "orZero v = (case v of None \<Rightarrow> 0 | Some n \<Rightarrow> n)"

definition handleScroll :: "browser \<Rightarrow> step \<Rightarrow> nat \<Rightarrow> handler_result" where
  "handleScroll br s clock =
     (case step_selectors s of
        Some groups \<Rightarrow>
          (case findElement br (step_selectors s) Config_elementTimeout clock of
             (None, clock', evs) \<Rightarrow> (None, clock', evs)
           | (Some element, clock', evs) \<Rightarrow>
               (None, clock',
                evs @ [Performed element (ScrollTo (orZero (step_x s)) (orZero (step_y s)))]))
      | None \<Rightarrow> (None, clock, [WindowScrolled (orZero (step_x s)) (orZero (step_y s))]))"

definition handleHover :: "browser \<Rightarrow> step \<Rightarrow> nat \<Rightarrow> handler_result" where
  "handleHover br s clock =
     (case findElement br (step_selectors s) Config_elementTimeout clock of
        (None, clock', evs) \<Rightarrow> (Some HoverTargetNotFound, clock', evs)
      | (Some element, clock', evs) \<Rightarrow> (None, clock', evs @ [Performed element MouseOver]))"

text \<open>
  \<open>handleWaitForElement\<close> awaits \<open>findElement(step.selectors, Config.elementTimeout)\<close>
  and does not look at what it returns.
\<close>

definition handleWaitForElement :: "browser \<Rightarrow> step \<Rightarrow> nat \<Rightarrow> handler_result" where
  "handleWaitForElement br s clock =
     (case findElement br (step_selectors s) Config_elementTimeout clock of
        (found, clock', evs) \<Rightarrow> (None, clock', evs))"

text \<open>
  The loop of \<open>handleWaitForExpression\<close>; an evaluation that throws counts as not yet
  true.
\<close>

function waitForExpressionLoop ::
  "browser \<Rightarrow> string \<Rightarrow> nat \<Rightarrow> nat \<Rightarrow> nat \<Rightarrow> handler_result" where
  "waitForExpressionLoop br expression startTime timeout clock =
     (if clock - startTime < timeout then
        (case evalExpression (br clock) expression of
           Truthy \<Rightarrow> (None, clock, [Evaluated expression])
         | _ \<Rightarrow>
             (let (err, clock', evs) =
                    waitForExpressionLoop br expression startTime timeout (clock + 100)
              in (err, clock', Evaluated expression # Delayed 100 # evs)))
      else (Some ExpressionTimeout, clock, []))"
  by pat_completeness auto
termination
  by (relation "measure (\<lambda>(br, expression, startTime, timeout, clock). startTime + timeout - clock)")
     auto

declare waitForExpressionLoop.simps [simp del]

definition handleWaitForExpression :: "browser \<Rightarrow> step \<Rightarrow> nat \<Rightarrow> handler_result" where
  "handleWaitForExpression br s clock =
     (let timeout = (case step_timeout s of
                       None \<Rightarrow> Config_elementTimeout
                     | Some t \<Rightarrow> if t = 0 then Config_elementTimeout else t)
      in waitForExpressionLoop br (step_expression s) clock timeout clock)"

definition executeStep :: "browser \<Rightarrow> step \<Rightarrow> nat \<Rightarrow> handler_result" where
  "executeStep br s clock =
     (if step_type s = ''navigate'' then handleNavigate br s clock
      else if step_type s = ''click'' then handleClick br s clock
      else if step_type s = ''doubleClick'' then handleDoubleClick br s clock
      else if step_type s = ''change'' then handleChange br s clock
      else if step_type s = ''keyDown'' then handleKeyDown br s clock
      else if step_type s = ''keyUp'' then handleKeyUp br s clock
      else if step_type s = ''scroll'' then handleScroll br s clock
      else if step_type s = ''hover'' then handleHover br s clock
      else if step_type s = ''waitForElement'' then handleWaitForElement br s clock
      else if step_type s = ''waitForExpression'' then handleWaitForExpression br s clock
      else if step_type s = ''setViewport'' then (None, clock, [])
      else (None, clock, [UnknownStepType (step_type s)]))"

section \<open>content/executor.js: executeSteps\<close>

text \<open>The three variables of the run.\<close>

record run_state =
  completedSteps :: nat
  lastError :: "step_error option"
  hasFailedSteps :: bool

text \<open>
  The \<open>for\<close> loop from index \<open>i\<close>, over the steps from \<open>i\<close> on; \<open>n\<close> is
  \<open>steps.length\<close>. The test \<open>i < steps.length - 1\<close> is written \<open>i + 1 < n\<close>.
  After a step that completes, the counter goes up and, unless the step is the last,
  the loop waits \<open>Config.stepDelay\<close>. After a step that throws, policy
  \<open>'continue'\<close> records the error and goes to the next index at once; any other
  policy records the error and leaves the loop.
\<close>

fun runLoop ::
  "browser \<Rightarrow> string \<Rightarrow> nat \<Rightarrow> nat \<Rightarrow> step list \<Rightarrow> run_state \<Rightarrow> nat \<Rightarrow> run_state \<times> nat \<times> trace_event list" where
  "runLoop br errorPolicy n i [] st clock = (st, clock, [])"
| "runLoop br errorPolicy n i (s # rest) st clock =
     (case executeStep br s clock of
        (None, clock1, evs) \<Rightarrow>
          (let st1 = st\<lparr>completedSteps := completedSteps st + 1\<rparr> in
           if i + 1 < n then
             (let (st', clock', evs') =
                    runLoop br errorPolicy n (i + 1) rest st1 (clock1 + Config_stepDelay)
              in (st', clock', StepStarted i # evs @ Delayed Config_stepDelay # evs'))
           else
             (let (st', clock', evs') = runLoop br errorPolicy n (i + 1) rest st1 clock1
              in (st', clock', StepStarted i # evs @ evs')))
      | (Some error, clock1, evs) \<Rightarrow>
          if errorPolicy = ''continue'' then
            (let st1 = st\<lparr>hasFailedSteps := True, lastError := Some error\<rparr>;
                 (st', clock', evs') = runLoop br errorPolicy n (i + 1) rest st1 clock1
             in (st', clock', StepStarted i # evs @ StepFailedIgnored i error # evs'))
          else
            (st\<lparr>lastError := Some error\<rparr>, clock1,
             StepStarted i # evs @ [StepFailed i error]))"

text \<open>The result object that \<open>executeSteps\<close> returns.\<close>

record run_result =
  r_success :: bool
  r_status :: ExecutionStatus
  r_completedSteps :: nat
  r_totalSteps :: nat
  r_duration :: nat
  r_message :: run_message

text \<open>
  \<open>executeSteps\<close>; an absent \<open>errorPolicy\<close> argument is \<open>'stop'\<close>. In this
  model nothing in the outer \<open>try\<close> block throws outside the inner one, so the outer
  \<open>catch\<close> is not reached.
\<close>

definition executeSteps ::
  "browser \<Rightarrow> step list \<Rightarrow> string \<Rightarrow> string \<Rightarrow> string option \<Rightarrow> nat \<Rightarrow> run_result \<times> nat \<times> trace_event list" where
  "executeSteps br steps taskId taskName errorPolicyArg clock =
     (let errorPolicy = (case errorPolicyArg of None \<Rightarrow> ''stop'' | Some p \<Rightarrow> p);
          startTime = clock;
          (st, clock', evs) =
            runLoop br errorPolicy (length steps) 0 steps
              \<lparr>completedSteps = 0, lastError = None, hasFailedSteps = False\<rparr> clock;
          duration = clock' - startTime;
          status =
            (if lastError st \<noteq> None \<and> errorPolicy = ''stop'' then FAILED
             else if hasFailedSteps st then PARTIAL
             else if completedSteps st < length steps then PARTIAL
             else SUCCESS);
          message = (case lastError st of Some e \<Rightarrow> ErrorMessage e | None \<Rightarrow> ExecutionComplete)
      in (\<lparr>r_success = (status = SUCCESS), r_status = status,
            r_completedSteps = completedSteps st, r_totalSteps = length steps,
            r_duration = duration, r_message = message\<rparr>,
          clock',
          evs @ [ResultSent taskId taskName status message duration]))"

text \<open>Reading a trace: the indices of the steps started, and of the steps that failed.\<close>

fun startedSteps :: "trace_event list \<Rightarrow> nat list" where
  "startedSteps [] = []"
| "startedSteps (StepStarted i # evs) = i # startedSteps evs"
| "startedSteps (e # evs) = startedSteps evs"

fun failedSteps :: "trace_event list \<Rightarrow> nat list" where
  "failedSteps [] = []"
| "failedSteps (StepFailedIgnored i err # evs) = i # failedSteps evs"
| "failedSteps (StepFailed i err # evs) = i # failedSteps evs"
| "failedSteps (e # evs) = failedSteps evs"

text \<open>
  The events a step handler can write, as opposed to those of the loop of
  \<open>executeSteps\<close> itself.
\<close>

fun handlerEvent :: "trace_event \<Rightarrow> bool" where
  "handlerEvent (StepStarted i) = False"
| "handlerEvent (StepFailedIgnored i err) = False"
| "handlerEvent (StepFailed i err) = False"
| "handlerEvent (ResultSent taskId taskName status message duration) = False"
| "handlerEvent e = True"

text \<open>
  Used to state which step fails first. \<open>completeInTurn br i pre clock\<close> executes the
  steps \<open>pre\<close>, which stand at the indices from \<open>i\<close> on and are followed by a further
  step, one after the other from \<open>clock\<close>, each followed by the pacing delay. It is
  \<open>None\<close> when one of them throws; otherwise it is the clock at which the step after
  them starts, and the trace up to there.
\<close>

fun completeInTurn ::
  "browser \<Rightarrow> nat \<Rightarrow> step list \<Rightarrow> nat \<Rightarrow> (nat \<times> trace_event list) option" where
  "completeInTurn br i [] clock = Some (clock, [])"
| "completeInTurn br i (s # rest) clock =
     (case executeStep br s clock of
        (Some err, clock1, evs) \<Rightarrow> None
      | (None, clock1, evs) \<Rightarrow>
          (case completeInTurn br (i + 1) rest (clock1 + Config_stepDelay) of
             None \<Rightarrow> None
           | Some (clock', evs') \<Rightarrow>
               Some (clock', StepStarted i # evs @ Delayed Config_stepDelay # evs')))"

section \<open>Properties of the log store\<close>

text \<open>
  C9. Whatever the log store held before and whatever entry is appended, when the
  configured maximum \<open>m\<close> is a positive count, the store after \<open>addLog\<close> holds at
  most \<open>m\<close> entries, the new entry is its first (newest) element, and the stored list
  is the front part of "new entry followed by the old list": what is dropped is a
  (possibly empty) tail \<open>dropped\<close> of that list, i.e. the entries appended longest ago,
  and exactly as many are dropped as the list exceeds the maximum by (none when it
  does not).
\<close>

theorem addLog_retention:
  assumes "maxLogs (case flowrunner_settings st of None \<Rightarrow> DefaultSettings | Some s \<Rightarrow> s) = Some m"
    and "0 < m"
  shows "\<exists>kept dropped.
           flowrunner_logs (addLog log st) = Some kept
         \<and> length kept \<le> nat m
         \<and> kept \<noteq> [] \<and> hd kept = log
         \<and> log # (case flowrunner_logs st of None \<Rightarrow> [] | Some l \<Rightarrow> l) = kept @ dropped
         \<and> length dropped =
             Suc (length (case flowrunner_logs st of None \<Rightarrow> [] | Some l \<Rightarrow> l)) - nat m"
proof -
  let ?old = "case flowrunner_logs st of None \<Rightarrow> [] | Some l \<Rightarrow> l"
  let ?kept = "take (nat m) (log # ?old)"
  let ?dropped = "drop (nat m) (log # ?old)"
  from assms have stored: "flowrunner_logs (addLog log st) = Some ?kept"
    by (simp add: addLog_def slice0_def Let_def)
  from assms(2) obtain k where k: "nat m = Suc k"
    by (cases "nat m") auto
  have "length ?kept \<le> nat m" by simp
  moreover have "?kept \<noteq> []" "hd ?kept = log" using k by simp_all
  moreover have "log # ?old = ?kept @ ?dropped" by simp
  moreover have "length ?dropped = Suc (length ?old) - nat m" by simp
  ultimately show ?thesis using stored by blast
qed

theorem addLog_retention_witness:
  "\<exists>kept dropped.
     flowrunner_logs
       (addLog (createLog ''c'' 30 ''t'' ''n'' SUCCESS None None)
          \<lparr>flowrunner_logs =
             Some [createLog ''b'' 20 ''t'' ''n'' FAILED None None,
                   createLog ''a'' 10 ''t'' ''n'' SUCCESS None None],
           flowrunner_settings = Some (DefaultSettings\<lparr>maxLogs := Some 2\<rparr>)\<rparr>) = Some kept
   \<and> length kept \<le> nat 2
   \<and> kept \<noteq> [] \<and> hd kept = createLog ''c'' 30 ''t'' ''n'' SUCCESS None None
   \<and> createLog ''c'' 30 ''t'' ''n'' SUCCESS None None #
       [createLog ''b'' 20 ''t'' ''n'' FAILED None None,
        createLog ''a'' 10 ''t'' ''n'' SUCCESS None None] = kept @ dropped
   \<and> length dropped = 1"
  using addLog_retention
    [of "\<lparr>flowrunner_logs =
             Some [createLog ''b'' 20 ''t'' ''n'' FAILED None None,
                   createLog ''a'' 10 ''t'' ''n'' SUCCESS None None],
           flowrunner_settings = Some (DefaultSettings\<lparr>maxLogs := Some 2\<rparr>)\<rparr>"
        2 "createLog ''c'' 30 ''t'' ''n'' SUCCESS None None"]
  by simp

section \<open>Properties of the schedule computation\<close>







section \<open>Properties of the parser\<close>

lemma validateSteps_Valid:
  "validateSteps i steps = Inr Valid \<Longrightarrow>
     list_all (\<lambda>s. \<not> nullish s \<and> truthy (field s ''type'')) steps"
  by (induction steps arbitrary: i) (auto simp: getProp_def split: if_splits)

lemma validate_Valid:
  assumes "validate json = Inr Valid"
  shows "\<exists>raw. field json ''steps'' = JArr raw \<and> raw \<noteq> [] \<and> \<not> nullish json
           \<and> list_all (\<lambda>s. \<not> nullish s \<and> truthy (field s ''type'')) raw"
proof -
  from assms have t: "truthy json"
    by (auto simp: validate_def split: if_splits)
  then have nn: "\<not> nullish json" by (cases json) auto
  from assms t obtain raw where raw: "field json ''steps'' = JArr raw"
    by (cases "field json ''steps''") (auto simp: validate_def split: if_splits)
  with assms have "raw \<noteq> []" "validateSteps 0 raw = Inr Valid"
    by (auto simp: validate_def split: if_splits)
  with raw nn validateSteps_Valid show ?thesis by blast
qed

lemma transformStep_object:
  "\<not> nullish step \<Longrightarrow> \<exists>kvs. transformStep step i = Inr (JObj kvs)"
  by (simp add: transformStep_def getProp_def Let_def)

lemma mapIndexed_transformStep:
  "list_all (\<lambda>s. \<not> nullish s) raw \<Longrightarrow>
     \<exists>steps. mapIndexed transformStep i raw = Inr steps
            \<and> length steps = length raw \<and> list_all (\<lambda>s. \<not> nullish s) steps"
proof (induction raw arbitrary: i)
  case Nil
  then show ?case by simp
next
  case (Cons s raw)
  from Cons.prems obtain kvs where k: "transformStep s i = Inr (JObj kvs)"
    using transformStep_object by auto
  from Cons.prems Cons.IH[of "i + 1"] obtain steps where
    "mapIndexed transformStep (i + 1) raw = Inr steps" "length steps = length raw"
    "list_all (\<lambda>s. \<not> nullish s) steps"
    by auto
  with k show ?case by simp
qed

lemma findNavigate_find:
  "list_all (\<lambda>s. \<not> nullish s) steps \<Longrightarrow>
     findNavigate steps =
       Inr (case find (\<lambda>s. field s ''type'' = JStr ''navigate'') steps of
              None \<Rightarrow> JUndefined | Some s \<Rightarrow> s)"
  by (induction steps) (auto simp: getProp_def)

lemma find_not_nullish:
  "list_all (\<lambda>s. \<not> nullish s) steps \<Longrightarrow> find P steps = Some s \<Longrightarrow> \<not> nullish s"
  by (induction steps) (auto split: if_splits)

lemma extractStartUrl_find:
  assumes "list_all (\<lambda>s. \<not> nullish s) steps"
  shows "extractStartUrl steps =
       Inr (case find (\<lambda>s. field s ''type'' = JStr ''navigate'') steps of
              None \<Rightarrow> JNull
            | Some s \<Rightarrow> if truthy (field s ''url'') then field s ''url'' else JNull)"
proof (cases "find (\<lambda>s. field s ''type'' = JStr ''navigate'') steps")
  case None
  with assms show ?thesis
    by (simp add: extractStartUrl_def findNavigate_find)
next
  case (Some s)
  with assms have "\<not> nullish s" by (rule find_not_nullish)
  with assms Some show ?thesis
    by (simp add: extractStartUrl_def findNavigate_find)
qed

text \<open>
  C10. For every input string and every behaviour of \<open>JSON.parse\<close> (a decoded value
  of any kind, or a thrown error), \<open>parse\<close> returns to its caller, and what it
  returns is a success record with data or a failure record with an error: no
  exception leaves it.
\<close>

theorem parse_returns_result:
  "(\<exists>data. parse JSON_parse jsonString = Inr (Success data))
   \<or> (\<exists>error. parse JSON_parse jsonString = Inr (Failure error))"
proof (cases "parseBody JSON_parse jsonString")
  case (Inl e)
  then show ?thesis by (simp add: parse_def)
next
  case (Inr r)
  then show ?thesis by (cases r) (simp_all add: parse_def)
qed

text \<open>
  C7, as the code has it. For every document that \<open>validate\<close> accepts,
  \<open>transform\<close> succeeds with as many steps as the document has actions, and its
  \<open>startUrl\<close> is \<open>null\<close> when the normalized list has no step of type
  \<open>navigate\<close>; otherwise it is the \<open>url\<close> of the first such step when that value
  is truthy (a non-empty string, say), and \<open>null\<close> when that \<open>url\<close> is missing or
  falsy (the empty string, say).
\<close>

theorem transform_startUrl:
  assumes "validate json = Inr Valid"
  shows "\<exists>data raw. transform json = Inr data
         \<and> field json ''steps'' = JArr raw \<and> length (d_steps data) = length raw
         \<and> d_startUrl data =
             (case find (\<lambda>s. field s ''type'' = JStr ''navigate'') (d_steps data) of
                None \<Rightarrow> JNull
              | Some s \<Rightarrow> if truthy (field s ''url'') then field s ''url'' else JNull)"
proof -
  from validate_Valid[OF assms] obtain raw where
    raw: "field json ''steps'' = JArr raw" "\<not> nullish json"
      "list_all (\<lambda>s. \<not> nullish s \<and> truthy (field s ''type'')) raw"
    by blast
  from raw(3) have "list_all (\<lambda>s. \<not> nullish s) raw"
    by (simp add: list_all_iff)
  from mapIndexed_transformStep[OF this, of 0] obtain steps where
    steps: "mapIndexed transformStep 0 raw = Inr steps" "length steps = length raw"
      "list_all (\<lambda>s. \<not> nullish s) steps"
    by blast
  define title where "title = (if truthy (field json ''title'') then field json ''title'' else JStr [])"
  define url where "url = (case find (\<lambda>s. field s ''type'' = JStr ''navigate'') steps of
                None \<Rightarrow> JNull
              | Some s \<Rightarrow> if truthy (field s ''url'') then field s ''url'' else JNull)"
  have "transform json =
          Inr \<lparr>d_title = title, d_startUrl = url, d_steps = steps, d_originalJson = json\<rparr>"
    using raw(1,2) steps(1) extractStartUrl_find[OF steps(3)]
    by (simp add: transform_def getProp_def title_def url_def)
  with raw(1) steps(2) show ?thesis
    by (simp add: url_def)
qed

theorem transform_startUrl_witness:
  "\<exists>data raw.
     transform (JObj [(''steps'', JArr [JObj [(''type'', JStr ''click'')],
                                        JObj [(''type'', JStr ''navigate''), (''url'', JStr ''https://x'')]])])
       = Inr data
     \<and> field (JObj [(''steps'', JArr [JObj [(''type'', JStr ''click'')],
                                        JObj [(''type'', JStr ''navigate''), (''url'', JStr ''https://x'')]])])
          ''steps'' = JArr raw
     \<and> length (d_steps data) = length raw
     \<and> d_startUrl data =
             (case find (\<lambda>s. field s ''type'' = JStr ''navigate'') (d_steps data) of
                None \<Rightarrow> JNull
              | Some s \<Rightarrow> if truthy (field s ''url'') then field s ''url'' else JNull)
     \<and> d_startUrl data = JStr ''https://x''"
proof -
  let ?doc = "JObj [(''steps'', JArr [JObj [(''type'', JStr ''click'')],
                                        JObj [(''type'', JStr ''navigate''), (''url'', JStr ''https://x'')]])]"
  have v: "validate ?doc = Inr Valid"
    by (simp add: validate_def getProp_def)
  have "\<exists>d. transform ?doc = Inr d \<and> d_startUrl d = JStr ''https://x''"
    by (simp add: transform_def transformStep_def copyByType_def normalizeSelectors_def
        extractStartUrl_def getProp_def)
  with transform_startUrl[OF v] show ?thesis by auto
qed

text \<open>
  The claim as worded (the start URL equals the \<open>url\<close> field of the first navigate
  step) fails on a valid one-step document whose navigate action has the empty string
  as \<open>url\<close>: the normalized step keeps \<open>url = ""\<close>, and \<open>startUrl\<close> is \<open>null\<close>.
\<close>

theorem transform_startUrl_counterexample:
  "validate (JObj [(''steps'', JArr [JObj [(''type'', JStr ''navigate''), (''url'', JStr [])]])])
     = Inr Valid
   \<and> transform (JObj [(''steps'', JArr [JObj [(''type'', JStr ''navigate''), (''url'', JStr [])]])])
     = Inr \<lparr>d_title = JStr [], d_startUrl = JNull,
            d_steps = [JObj [(''type'', JStr ''navigate''), (''index'', JNum 0), (''url'', JStr [])]],
            d_originalJson =
              JObj [(''steps'', JArr [JObj [(''type'', JStr ''navigate''), (''url'', JStr [])]])]\<rparr>
   \<and> field (JObj [(''type'', JStr ''navigate''), (''index'', JNum 0), (''url'', JStr [])]) ''url''
     \<noteq> JNull"
  by (simp add: validate_def transform_def transformStep_def copyByType_def
      extractStartUrl_def getProp_def)

text \<open>
  What \<open>validate\<close> does on documents whose actions are not \<open>null\<close>: the three
  malformed-document errors arise exactly for a value that is not an object, has no
  array under \<open>steps\<close>, or has an empty one; otherwise the result is the
  missing-type error for the first action whose \<open>type\<close> is missing or falsy, and
  \<open>Valid\<close> when there is none.
\<close>

lemma validateSteps_not_malformed:
  "validateSteps i steps = Inr (Invalid e) \<Longrightarrow> \<exists>n. e = MissingType n"
  by (induction steps arbitrary: i) (auto simp: getProp_def split: if_splits)

lemma validate_malformed_iff:
  "(validate json = Inr (Invalid InvalidFormat)
      \<or> validate json = Inr (Invalid MissingStepsArray)
      \<or> validate json = Inr (Invalid EmptyStepsArray))
   \<longleftrightarrow> ((\<nexists>kvs. json = JObj kvs) \<or> (\<nexists>steps. field json ''steps'' = JArr steps)
        \<or> field json ''steps'' = JArr [])"
proof (cases json)
  case (JObj kvs)
  show ?thesis
  proof (cases "field json ''steps''")
    case (JArr steps)
    show ?thesis
    proof (cases steps)
      case Nil
      with JObj JArr show ?thesis by (simp add: validate_def)
    next
      case (Cons s rest)
      with JObj JArr have "validate json = validateSteps 0 (s # rest)"
        by (simp add: validate_def)
      with validateSteps_not_malformed[of 0 "s # rest"] JObj JArr Cons show ?thesis
        by auto
    qed
  qed (use JObj in \<open>auto simp: validate_def\<close>)
qed (auto simp: validate_def)

lemma validateSteps_without_null:
  "list_all (\<lambda>s. \<not> nullish s) steps \<Longrightarrow>
     validateSteps i steps =
       (if list_all (\<lambda>s. truthy (field s ''type'')) steps then Inr Valid
        else Inr (Invalid (MissingType
               (i + 1 + length (takeWhile (\<lambda>s. truthy (field s ''type'')) steps)))))"
  by (induction steps arbitrary: i) (auto simp: getProp_def)

text \<open>
  C8 at a document the code can receive. The JSON text \<open>{"steps":[null]}\<close> decodes
  to an object whose only action is \<open>null\<close>, which has no \<open>type\<close>. \<open>validate\<close>
  does not return the missing-type error for step 1: reading \<open>step.type\<close> throws a
  \<open>TypeError\<close>, and \<open>parse\<close> reports the caught exception as a JSON parse failure.
\<close>

theorem validate_null_step_throws:
  "validate (JObj [(''steps'', JArr [JNull])]) = Inl TypeError
   \<and> validate (JObj [(''steps'', JArr [JNull])]) \<noteq> Inr (Invalid (MissingType 1))
   \<and> parse (\<lambda>text. Inr (JObj [(''steps'', JArr [JNull])])) jsonString
       = Inr (Failure (JsonParseFailed TypeError))"
  by (simp add: validate_def getProp_def parse_def parseBody_def)

theorem validate_null_step_throws_witness:
  "validate (JObj [(''steps'', JArr [JNull])]) = Inl TypeError
   \<and> validate (JObj [(''steps'', JArr [JNull])]) \<noteq> Inr (Invalid (MissingType 1))
   \<and> parse (\<lambda>text. Inr (JObj [(''steps'', JArr [JNull])]))
         (''{'' @ [CHR 0x22] @ ''steps'' @ [CHR 0x22] @ '':[null]}'')
       = Inr (Failure (JsonParseFailed TypeError))"
  by (rule validate_null_step_throws)

section \<open>Properties of the selector resolver\<close>

lemma pollGroups_append_no_match:
  "fst (pollGroups pg pre) = None \<Longrightarrow>
     pollGroups pg (pre @ rest) =
       (fst (pollGroups pg rest), snd (pollGroups pg pre) @ snd (pollGroups pg rest))"
proof (induction pre)
  case Nil
  then show ?case by simp
next
  case (Cons g pre)
  show ?case
  proof (cases "firstSelector g")
    case None
    with Cons show ?thesis by (simp add: case_prod_beta)
  next
    case (Some s)
    obtain r evs where e: "evalSelector pg s = (r, evs)" by (cases "evalSelector pg s")
    with Some Cons show ?thesis
      by (cases r) (simp_all add: case_prod_beta)
  qed
qed

lemma pollGroups_first_alternative:
  "pollGroups pg
     (map (\<lambda>g. case g of Alternatives a \<Rightarrow> Alternatives (take 1 a) | Single s \<Rightarrow> Single s) groups)
   = pollGroups pg groups"
proof (induction groups)
  case Nil
  then show ?case by simp
next
  case (Cons g groups)
  have "firstSelector (case g of Alternatives a \<Rightarrow> Alternatives (take 1 a) | Single s \<Rightarrow> Single s)
          = firstSelector g"
  proof (cases g)
    case (Alternatives a)
    then show ?thesis by (cases a) simp_all
  qed simp
  with Cons show ?case
    by (simp del: One_nat_def split: option.split prod.split lookup.split)
qed

lemma findElementLoop_no_match:
  "(\<And>t. fst (pollGroups (br t) groups) = None) \<Longrightarrow>
     fst (findElementLoop br groups startTime timeout clock) = None
     \<and> timeout \<le> fst (snd (findElementLoop br groups startTime timeout clock)) - startTime"
proof (induction br groups startTime timeout clock rule: findElementLoop.induct)
  case (1 br groups startTime timeout clock)
  show ?case
  proof (cases "clock - startTime < timeout")
    case False
    then show ?thesis by (simp add: findElementLoop.simps)
  next
    case True
    obtain evs where p: "pollGroups (br clock) groups = (None, evs)"
      using "1.prems"[of clock] by (cases "pollGroups (br clock) groups") auto
    have ih: "fst (findElementLoop br groups startTime timeout (clock + 100)) = None
         \<and> timeout \<le> fst (snd (findElementLoop br groups startTime timeout (clock + 100))) - startTime"
      using "1.IH"[OF True p[symmetric] refl] "1.prems" by simp
    have "findElementLoop br groups startTime timeout clock =
            (case findElementLoop br groups startTime timeout (clock + 100) of
               (found, clock', evs') \<Rightarrow> (found, clock', evs @ Delayed 100 # evs'))"
      using True p by (subst findElementLoop.simps) simp
    with ih show ?thesis by (simp add: case_prod_beta)
  qed
qed

lemma findElementLoop_same_polls:
  "(\<And>t. pollGroups (br t) groups = pollGroups (br t) groups') \<Longrightarrow>
     findElementLoop br groups startTime timeout clock
       = findElementLoop br groups' startTime timeout clock"
proof (induction br groups startTime timeout clock rule: findElementLoop.induct)
  case (1 br groups startTime timeout clock)
  show ?case
  proof (cases "clock - startTime < timeout")
    case False
    then show ?thesis
      by (simp add: findElementLoop.simps[of br groups startTime timeout clock]
          findElementLoop.simps[of br groups' startTime timeout clock])
  next
    case True
    obtain found evs where p: "pollGroups (br clock) groups = (found, evs)"
      by (cases "pollGroups (br clock) groups")
    with "1.prems"[of clock] have p': "pollGroups (br clock) groups' = (found, evs)" by simp
    show ?thesis
    proof (cases found)
      case (Some node)
      with True p p' show ?thesis
        by (simp add: findElementLoop.simps[of br groups startTime timeout clock]
            findElementLoop.simps[of br groups' startTime timeout clock])
    next
      case None
      from "1.IH"[OF True p[symmetric] None] "1.prems"
      have "findElementLoop br groups startTime timeout (clock + 100)
              = findElementLoop br groups' startTime timeout (clock + 100)"
        by simp
      with True p p' None show ?thesis
        by (simp add: findElementLoop.simps[of br groups startTime timeout clock]
            findElementLoop.simps[of br groups' startTime timeout clock])
    qed
  qed
qed

lemma findElementLoop_found_at:
  "(\<And>j. j < k \<Longrightarrow> fst (pollGroups (br (clock + 100 * j)) groups) = None) \<Longrightarrow>
   clock + 100 * k - startTime < timeout \<Longrightarrow>
   pollGroups (br (clock + 100 * k)) groups = (Some node, evs) \<Longrightarrow>
     findElementLoop br groups startTime timeout clock =
       (Some node, clock + 100 * k,
        concat (map (\<lambda>j. snd (pollGroups (br (clock + 100 * j)) groups) @ [Delayed 100]) [0..<k])
          @ evs)"
proof (induction k arbitrary: clock)
  case 0
  then show ?case
    by (simp add: findElementLoop.simps[of br groups startTime timeout clock])
next
  case (Suc k)
  from Suc.prems(2) have live: "clock - startTime < timeout" by simp
  from Suc.prems(1)[of 0] obtain evs0 where p0: "pollGroups (br clock) groups = (None, evs0)"
    by (cases "pollGroups (br clock) groups") auto
  have shift: "\<And>j. clock + 100 + 100 * j = clock + 100 * Suc j" by simp
  have "findElementLoop br groups startTime timeout (clock + 100) =
       (Some node, clock + 100 + 100 * k,
        concat (map (\<lambda>j. snd (pollGroups (br (clock + 100 + 100 * j)) groups) @ [Delayed 100]) [0..<k])
          @ evs)"
  proof (rule Suc.IH)
    fix j assume "j < k"
    then show "fst (pollGroups (br (clock + 100 + 100 * j)) groups) = None"
      using Suc.prems(1)[of "Suc j"] by (simp add: shift)
  next
    show "clock + 100 + 100 * k - startTime < timeout"
      using Suc.prems(2) by (simp add: shift)
  next
    show "pollGroups (br (clock + 100 + 100 * k)) groups = (Some node, evs)"
      using Suc.prems(3) by (simp add: shift)
  qed
  then have rec: "findElementLoop br groups startTime timeout (clock + 100) =
       (Some node, clock + 100 * Suc k,
        concat (map (\<lambda>j. snd (pollGroups (br (clock + 100 * Suc j)) groups) @ [Delayed 100]) [0..<k])
          @ evs)"
    by (simp only: shift)
  have upt: "[0..<Suc k] = 0 # map Suc [0..<k]"
    unfolding map_Suc_upt by (rule upt_conv_Cons) simp
  have "concat (map (\<lambda>j. snd (pollGroups (br (clock + 100 * j)) groups) @ [Delayed 100]) [0..<Suc k])
        = (evs0 @ [Delayed 100])
          @ concat (map (\<lambda>j. snd (pollGroups (br (clock + 100 * Suc j)) groups) @ [Delayed 100]) [0..<k])"
    unfolding upt using p0 by (simp add: comp_def)
  with live p0 rec show ?case
    by (simp add: findElementLoop.simps[of br groups startTime timeout clock])
qed

text \<open>
  C4. (1) Cutting every group down to its first alternative changes neither the result
  nor the trace, of one poll and of \<open>findElement\<close> as a whole: only the first
  alternative of a group is ever evaluated. (2) In one poll, when the groups \<open>pre\<close>
  give no match and the first alternative of the next group \<open>g\<close> finds a node, the
  poll returns that node and its lookups are those for \<open>pre\<close> followed by those for
  \<open>g\<close>, whatever groups \<open>post\<close> come after: groups are tried in order and none
  after the match is evaluated. (3) A descriptor whose evaluation throws is caught:
  the poll goes on with the remaining groups and returns what they give. (4)
  \<open>findElement\<close> polls the caller's groups at the clock readings \<open>clock\<close>,
  \<open>clock + 100\<close>, ...: when the polls before the \<open>k\<close>-th find nothing, the
  \<open>k\<close>-th poll is within the timeout and finds a node, \<open>findElement\<close> returns that
  node at that reading of the clock, and its trace is the traces of those polls, each
  earlier one followed by its 100 ms delay and nothing after the poll that matched
  (for \<open>k = 0\<close>: the first poll wins at once, with no delay). (5) When no poll ever
  matches, the result is not-found. (6) An empty selector-group list returns not-found
  at once, with an empty trace (no lookup, no delay) and the clock unchanged.
\<close>

theorem findElement_poll_order:
  "pollGroups pg
     (map (\<lambda>g. case g of Alternatives a \<Rightarrow> Alternatives (take 1 a) | Single s \<Rightarrow> Single s) groups)
     = pollGroups pg groups
   \<and> findElement br
        (Some (map (\<lambda>g. case g of Alternatives a \<Rightarrow> Alternatives (take 1 a) | Single s \<Rightarrow> Single s)
                 groups)) timeout clock
     = findElement br (Some groups) timeout clock
   \<and> (fst (pollGroups pg pre) = None \<and> firstSelector g = Some s
        \<and> evalSelector pg s = (Found node, evs) \<longrightarrow>
      pollGroups pg (pre @ g # post) = (Some node, snd (pollGroups pg pre) @ evs))
   \<and> (firstSelector gT = Some sT \<and> evalSelector pg sT = (Thrown, evsT) \<longrightarrow>
      pollGroups pg (gT # postT) =
        (fst (pollGroups pg postT), evsT @ SelectorFailed (Some sT) # snd (pollGroups pg postT)))
   \<and> ((\<forall>j<k. fst (pollGroups (br (clock + 100 * j)) groups) = None)
        \<and> 100 * k < timeout
        \<and> pollGroups (br (clock + 100 * k)) groups = (Some found, evsK) \<longrightarrow>
      findElement br (Some groups) timeout clock =
        (Some found, clock + 100 * k,
         concat (map (\<lambda>j. snd (pollGroups (br (clock + 100 * j)) groups) @ [Delayed 100]) [0..<k])
           @ evsK))
   \<and> ((\<forall>t. fst (pollGroups (br t) groups) = None) \<longrightarrow>
      fst (findElement br (Some groups) timeout clock) = None)
   \<and> findElement br (Some []) timeout clock = (None, clock, [])"
proof (intro conjI impI)
  show "pollGroups pg
     (map (\<lambda>g. case g of Alternatives a \<Rightarrow> Alternatives (take 1 a) | Single s \<Rightarrow> Single s) groups)
     = pollGroups pg groups"
    by (rule pollGroups_first_alternative)
next
  let ?cut = "map (\<lambda>g. case g of Alternatives a \<Rightarrow> Alternatives (take 1 a) | Single s \<Rightarrow> Single s)
                 groups"
  have loop: "findElementLoop br ?cut clock timeout clock
                = findElementLoop br groups clock timeout clock"
    by (rule findElementLoop_same_polls) (rule pollGroups_first_alternative)
  show "findElement br (Some ?cut) timeout clock = findElement br (Some groups) timeout clock"
  proof (cases groups)
    case Nil
    then show ?thesis by (simp add: findElement_def)
  next
    case (Cons g' rest)
    then obtain c cs where "?cut = c # cs" by simp
    with Cons loop show ?thesis by (simp add: findElement_def)
  qed
next
  assume a: "fst (pollGroups pg pre) = None \<and> firstSelector g = Some s
        \<and> evalSelector pg s = (Found node, evs)"
  then have "pollGroups pg (g # post) = (Some node, evs)" by simp
  with a show "pollGroups pg (pre @ g # post) = (Some node, snd (pollGroups pg pre) @ evs)"
    by (simp add: pollGroups_append_no_match)
next
  assume "firstSelector gT = Some sT \<and> evalSelector pg sT = (Thrown, evsT)"
  then show "pollGroups pg (gT # postT) =
        (fst (pollGroups pg postT), evsT @ SelectorFailed (Some sT) # snd (pollGroups pg postT))"
    by (simp add: case_prod_beta)
next
  assume a: "(\<forall>j<k. fst (pollGroups (br (clock + 100 * j)) groups) = None)
        \<and> 100 * k < timeout
        \<and> pollGroups (br (clock + 100 * k)) groups = (Some found, evsK)"
  then have ne: "groups \<noteq> []" by auto
  from a have "findElementLoop br groups clock timeout clock =
        (Some found, clock + 100 * k,
         concat (map (\<lambda>j. snd (pollGroups (br (clock + 100 * j)) groups) @ [Delayed 100]) [0..<k])
           @ evsK)"
    by (intro findElementLoop_found_at) auto
  with ne show "findElement br (Some groups) timeout clock =
        (Some found, clock + 100 * k,
         concat (map (\<lambda>j. snd (pollGroups (br (clock + 100 * j)) groups) @ [Delayed 100]) [0..<k])
           @ evsK)"
    by (cases groups) (simp_all add: findElement_def)
next
  assume "\<forall>t. fst (pollGroups (br t) groups) = None"
  then have "fst (findElementLoop br groups clock timeout clock) = None"
    using findElementLoop_no_match[of br groups clock timeout clock] by simp
  then show "fst (findElement br (Some groups) timeout clock) = None"
    by (cases groups) (simp_all add: findElement_def)
next
  show "findElement br (Some []) timeout clock = (None, clock, [])"
    by (simp add: findElement_def)
qed

theorem findElement_poll_order_witness:
  "findElement
      (\<lambda>t. \<lparr>querySelector = (\<lambda>q. if 100 \<le> t \<and> q = ''#b'' then Found 7
                                  else if 100 \<le> t \<and> q = ''#d'' then Found 9 else NoMatch),
             evaluateXPath = (\<lambda>q. Thrown), activeElement = None,
             evalExpression = (\<lambda>x. Falsy)\<rparr>)
      (Some [Alternatives [''#a'', ''#b''], Single ''xpath/!!'', Alternatives [''#b'', ''#c''],
             Single ''#d''])
      1000 0
     = (Some 7, 100,
        [QueriedSelector ''#a'', QueriedXPath ''!!'', SelectorFailed (Some ''xpath/!!''),
         QueriedSelector ''#b'', QueriedSelector ''#d'', Delayed 100,
         QueriedSelector ''#a'', QueriedXPath ''!!'', SelectorFailed (Some ''xpath/!!''),
         QueriedSelector ''#b''])
   \<and> pollGroups
      \<lparr>querySelector = (\<lambda>q. if q = ''#b'' then Found 7 else if q = ''#d'' then Found 9 else NoMatch),
       evaluateXPath = (\<lambda>q. Thrown), activeElement = None, evalExpression = (\<lambda>x. Falsy)\<rparr>
      ([Alternatives [''#a'', ''#b'']] @ Alternatives [''#b'', ''#c''] # [Single ''#d''])
     = (Some 7, [QueriedSelector ''#a''] @ [QueriedSelector ''#b''])
   \<and> pollGroups
      \<lparr>querySelector = (\<lambda>q. if q = ''#b'' then Found 7 else if q = ''#d'' then Found 9 else NoMatch),
       evaluateXPath = (\<lambda>q. Thrown), activeElement = None, evalExpression = (\<lambda>x. Falsy)\<rparr>
      (Single ''xpath/!!'' # [Single ''#b''])
     = (Some 7, [QueriedXPath ''!!'', SelectorFailed (Some ''xpath/!!''), QueriedSelector ''#b''])
   \<and> fst (findElement
      (\<lambda>t. \<lparr>querySelector = (\<lambda>q. NoMatch), evaluateXPath = (\<lambda>q. NoMatch),
             activeElement = None, evalExpression = (\<lambda>x. Falsy)\<rparr>)
      (Some [Single ''#x'']) 300 0) = None"
proof -
  let ?br = "\<lambda>t::nat. \<lparr>querySelector = (\<lambda>q. if 100 \<le> t \<and> q = ''#b'' then Found 7
                                  else if 100 \<le> t \<and> q = ''#d'' then Found 9 else NoMatch),
             evaluateXPath = (\<lambda>q. Thrown), activeElement = None,
             evalExpression = (\<lambda>x. Falsy)\<rparr>"
  let ?pg = "\<lparr>querySelector = (\<lambda>q. if q = ''#b'' then Found 7 else if q = ''#d'' then Found 9 else NoMatch),
       evaluateXPath = (\<lambda>q. Thrown), activeElement = None, evalExpression = (\<lambda>x. Falsy)\<rparr>"
  let ?none = "\<lambda>t::nat. \<lparr>querySelector = (\<lambda>q. NoMatch), evaluateXPath = (\<lambda>q. NoMatch),
             activeElement = None, evalExpression = (\<lambda>x. Falsy)\<rparr>"
  let ?groups = "[Alternatives [''#a'', ''#b''], Single ''xpath/!!'', Alternatives [''#b'', ''#c''],
             Single ''#d'']"
  have first: "\<forall>j<1. fst (pollGroups (?br (0 + 100 * j)) ?groups) = None"
    by (simp add: evalSelector_def startsWith_def)
  have second: "pollGroups (?br (0 + 100 * 1)) ?groups
      = (Some 7, [QueriedSelector ''#a'', QueriedXPath ''!!'', SelectorFailed (Some ''xpath/!!''),
                  QueriedSelector ''#b''])"
    by (simp add: evalSelector_def startsWith_def)
  have earlier: "concat (map (\<lambda>j. snd (pollGroups (?br (0 + 100 * j)) ?groups) @ [Delayed 100]) [0..<1])
      = [QueriedSelector ''#a'', QueriedXPath ''!!'', SelectorFailed (Some ''xpath/!!''),
         QueriedSelector ''#b'', QueriedSelector ''#d'', Delayed 100]"
    by (simp add: evalSelector_def startsWith_def)
  have t: "(100::nat) * 1 < 1000" by simp
  have 1: "pollGroups ?pg [Alternatives [''#a'', ''#b'']] = (None, [QueriedSelector ''#a''])"
    by (simp add: evalSelector_def startsWith_def)
  have 2: "evalSelector ?pg ''#b'' = (Found 7, [QueriedSelector ''#b''])"
    by (simp add: evalSelector_def startsWith_def)
  have 3: "evalSelector ?pg ''xpath/!!'' = (Thrown, [QueriedXPath ''!!''])"
    by (simp add: evalSelector_def startsWith_def)
  have 4: "pollGroups ?pg [Single ''#b''] = (Some 7, [QueriedSelector ''#b''])"
    by (simp add: evalSelector_def startsWith_def)
  have never: "\<forall>t. fst (pollGroups (?none t) [Single ''#x'']) = None"
    by (simp add: evalSelector_def startsWith_def)
  note A = findElement_poll_order
      [where pg = ?pg and pre = "[Alternatives [''#a'', ''#b'']]"
         and g = "Alternatives [''#b'', ''#c'']" and s = "''#b''" and node = 7
         and evs = "[QueriedSelector ''#b'']" and post = "[Single ''#d'']"
         and gT = "Single ''xpath/!!''" and sT = "''xpath/!!''"
         and evsT = "[QueriedXPath ''!!'']" and postT = "[Single ''#b'']"
         and br = ?br and groups = ?groups and timeout = 1000 and clock = 0 and k = 1
         and found = 7
         and evsK = "[QueriedSelector ''#a'', QueriedXPath ''!!'', SelectorFailed (Some ''xpath/!!''),
                  QueriedSelector ''#b'']"]
  note B = findElement_poll_order
      [where br = ?none and groups = "[Single ''#x'']" and timeout = 300 and clock = 0]
  from A first second t
  have a4: "findElement ?br (Some ?groups) 1000 0 =
        (Some 7, 0 + 100 * 1,
         concat (map (\<lambda>j. snd (pollGroups (?br (0 + 100 * j)) ?groups) @ [Delayed 100]) [0..<1])
           @ [QueriedSelector ''#a'', QueriedXPath ''!!'', SelectorFailed (Some ''xpath/!!''),
                  QueriedSelector ''#b''])"
    by blast
  from A 1 2 have a2: "pollGroups ?pg ([Alternatives [''#a'', ''#b'']] @ Alternatives [''#b'', ''#c''] # [Single ''#d''])
     = (Some 7, snd (pollGroups ?pg [Alternatives [''#a'', ''#b'']]) @ [QueriedSelector ''#b''])"
    by (simp only: fst_conv firstSelector.simps simp_thms)
  from A 3 have a3: "pollGroups ?pg (Single ''xpath/!!'' # [Single ''#b'']) =
        (fst (pollGroups ?pg [Single ''#b'']),
         [QueriedXPath ''!!''] @ SelectorFailed (Some ''xpath/!!'') # snd (pollGroups ?pg [Single ''#b'']))"
    by (simp only: firstSelector.simps simp_thms)
  from B never have b5: "fst (findElement ?none (Some [Single ''#x'']) 300 0) = None"
    by blast
  from a4 have c4: "findElement ?br (Some ?groups) 1000 0 =
        (Some 7, 100,
        [QueriedSelector ''#a'', QueriedXPath ''!!'', SelectorFailed (Some ''xpath/!!''),
         QueriedSelector ''#b'', QueriedSelector ''#d'', Delayed 100,
         QueriedSelector ''#a'', QueriedXPath ''!!'', SelectorFailed (Some ''xpath/!!''),
         QueriedSelector ''#b''])"
    by (simp only: earlier) simp
  from a2 1 have c2: "pollGroups ?pg ([Alternatives [''#a'', ''#b'']] @ Alternatives [''#b'', ''#c''] # [Single ''#d''])
     = (Some 7, [QueriedSelector ''#a''] @ [QueriedSelector ''#b''])"
    by (simp only: snd_conv)
  from a3 4 have c3: "pollGroups ?pg (Single ''xpath/!!'' # [Single ''#b''])
     = (Some 7, [QueriedXPath ''!!'', SelectorFailed (Some ''xpath/!!''), QueriedSelector ''#b''])"
    by (simp only: fst_conv snd_conv append.simps)
  from c4 c2 c3 b5 show ?thesis by (intro conjI)
qed

section \<open>Properties of the step handlers\<close>

text \<open>
  C3 on the code. \<open>handleWaitForElement\<close> never throws, whatever the page and the
  step, and its whole result is the same for every value of the step's \<open>timeout\<close>:
  the wait always uses \<open>Config.elementTimeout\<close>. At the step
  \<open>{type: 'waitForElement', selectors: [['#missing']], timeout: 1000}\<close> on a page where
  no lookup ever matches, \<open>executeStep\<close> completes without an error, and not before
  10000 ms have passed (not 1000); \<open>handleClick\<close> on the same step and page throws
  its target-not-found error.
\<close>

theorem handleWaitForElement_silent:
  "fst (handleWaitForElement br s clock) = None
   \<and> handleWaitForElement br (s\<lparr>step_timeout := t\<rparr>) clock = handleWaitForElement br s clock
   \<and> fst (executeStep
            (\<lambda>t. \<lparr>querySelector = (\<lambda>q. NoMatch), evaluateXPath = (\<lambda>q. NoMatch),
                   activeElement = None, evalExpression = (\<lambda>x. Falsy)\<rparr>)
            \<lparr>step_type = ''waitForElement'', step_selectors = Some [Alternatives [''#missing'']],
             step_value = [], step_key = [], step_x = None, step_y = None,
             step_timeout = Some 1000, step_expression = [], step_url = []\<rparr> 0) = None
   \<and> 10000 \<le> fst (snd (executeStep
            (\<lambda>t. \<lparr>querySelector = (\<lambda>q. NoMatch), evaluateXPath = (\<lambda>q. NoMatch),
                   activeElement = None, evalExpression = (\<lambda>x. Falsy)\<rparr>)
            \<lparr>step_type = ''waitForElement'', step_selectors = Some [Alternatives [''#missing'']],
             step_value = [], step_key = [], step_x = None, step_y = None,
             step_timeout = Some 1000, step_expression = [], step_url = []\<rparr> 0))
   \<and> fst (handleClick
            (\<lambda>t. \<lparr>querySelector = (\<lambda>q. NoMatch), evaluateXPath = (\<lambda>q. NoMatch),
                   activeElement = None, evalExpression = (\<lambda>x. Falsy)\<rparr>)
            \<lparr>step_type = ''waitForElement'', step_selectors = Some [Alternatives [''#missing'']],
             step_value = [], step_key = [], step_x = None, step_y = None,
             step_timeout = Some 1000, step_expression = [], step_url = []\<rparr> 0)
       = Some ClickTargetNotFound"
proof -
  let ?br = "\<lambda>t::nat. \<lparr>querySelector = (\<lambda>q. NoMatch), evaluateXPath = (\<lambda>q. NoMatch),
                   activeElement = None, evalExpression = (\<lambda>x. Falsy)\<rparr>"
  have nm: "\<And>t. fst (pollGroups (?br t) [Alternatives [''#missing'']]) = None"
    by (simp add: evalSelector_def startsWith_def)
  note loop = findElementLoop_no_match[of ?br "[Alternatives [''#missing'']]" 0 10000 0, OF nm]
  obtain found clock' evs where
    f: "findElementLoop ?br [Alternatives [''#missing'']] 0 10000 0 = (found, clock', evs)"
    by (cases "findElementLoop ?br [Alternatives [''#missing'']] 0 10000 0")
  with loop have r: "found = None" "10000 \<le> clock'" by simp_all
  have a: "fst (handleWaitForElement br s clock) = None"
    by (simp add: handleWaitForElement_def case_prod_beta)
  have b: "handleWaitForElement br (s\<lparr>step_timeout := t\<rparr>) clock = handleWaitForElement br s clock"
    by (simp add: handleWaitForElement_def)
  show ?thesis
    using a b f r
    by (simp add: executeStep_def handleWaitForElement_def handleClick_def findElement_def
        Config_elementTimeout_def)
qed

section \<open>Properties of the replay runner\<close>

lemma evalSelector_handlerEvents: "list_all handlerEvent (snd (evalSelector pg selector))"
  by (simp add: evalSelector_def Let_def split: lookup.split)

lemma pollGroups_handlerEvents: "list_all handlerEvent (snd (pollGroups pg groups))"
proof (induction groups)
  case Nil
  then show ?case by simp
next
  case (Cons g groups)
  show ?case
  proof (cases "firstSelector g")
    case None
    with Cons show ?thesis by (simp add: case_prod_beta)
  next
    case (Some s)
    obtain r evs where e: "evalSelector pg s = (r, evs)" by (cases "evalSelector pg s")
    with evalSelector_handlerEvents[of pg s] have "list_all handlerEvent evs" by simp
    with Some e Cons show ?thesis
      by (cases r) (simp_all add: case_prod_beta)
  qed
qed

lemma findElementLoop_handlerEvents:
  "list_all handlerEvent (snd (snd (findElementLoop br groups startTime timeout clock)))"
proof (induction br groups startTime timeout clock rule: findElementLoop.induct)
  case (1 br groups startTime timeout clock)
  show ?case
  proof (cases "clock - startTime < timeout")
    case False
    then show ?thesis by (simp add: findElementLoop.simps)
  next
    case True
    obtain found evs where p: "pollGroups (br clock) groups = (found, evs)"
      by (cases "pollGroups (br clock) groups")
    with pollGroups_handlerEvents[of "br clock" groups] have h: "list_all handlerEvent evs"
      by simp
    show ?thesis
    proof (cases found)
      case (Some element)
      with True p h show ?thesis by (subst findElementLoop.simps) simp
    next
      case None
      with "1.IH"[OF True p[symmetric]] True p h show ?thesis
        by (subst findElementLoop.simps) (simp add: case_prod_beta)
    qed
  qed
qed

lemma findElement_handlerEvents:
  "list_all handlerEvent (snd (snd (findElement br selectors timeout clock)))"
  by (simp add: findElement_def findElementLoop_handlerEvents split: option.split list.split)

lemma waitForExpressionLoop_handlerEvents:
  "list_all handlerEvent (snd (snd (waitForExpressionLoop br expression startTime timeout clock)))"
proof (induction br expression startTime timeout clock rule: waitForExpressionLoop.induct)
  case (1 br expression startTime timeout clock)
  show ?case
  proof (cases "clock - startTime < timeout")
    case False
    then show ?thesis by (simp add: waitForExpressionLoop.simps)
  next
    case True
    show ?thesis
    proof (cases "evalExpression (br clock) expression")
      case Truthy
      with True show ?thesis by (subst waitForExpressionLoop.simps) simp
    next
      case Falsy
      with "1.IH"(1)[OF True Falsy] True show ?thesis
        by (subst waitForExpressionLoop.simps) (simp add: case_prod_beta)
    next
      case EvalThrown
      with "1.IH"(2)[OF True EvalThrown] True show ?thesis
        by (subst waitForExpressionLoop.simps) (simp add: case_prod_beta)
    qed
  qed
qed

lemma handlers_with_target_handlerEvents:
  "list_all handlerEvent (snd (snd (handleClick br s clock)))"
  "list_all handlerEvent (snd (snd (handleDoubleClick br s clock)))"
  "list_all handlerEvent (snd (snd (handleChange br s clock)))"
  "list_all handlerEvent (snd (snd (handleHover br s clock)))"
  "list_all handlerEvent (snd (snd (handleWaitForElement br s clock)))"
  "list_all handlerEvent (snd (snd (handleScroll br s clock)))"
  using findElement_handlerEvents[of br "step_selectors s" Config_elementTimeout clock]
  by (auto simp: handleClick_def handleDoubleClick_def handleChange_def handleHover_def
      handleWaitForElement_def handleScroll_def split: prod.split option.split)

lemma handlers_without_target_handlerEvents:
  "list_all handlerEvent (snd (snd (handleNavigate br s clock)))"
  "list_all handlerEvent (snd (snd (handleKeyDown br s clock)))"
  "list_all handlerEvent (snd (snd (handleKeyUp br s clock)))"
  "list_all handlerEvent (snd (snd (handleWaitForExpression br s clock)))"
  by (simp_all add: handleNavigate_def handleKeyDown_def handleKeyUp_def
      handleWaitForExpression_def waitForExpressionLoop_handlerEvents split: option.split)

lemma executeStep_handlerEvents:
  "list_all handlerEvent (snd (snd (executeStep br s clock)))"
  by (simp add: executeStep_def handlers_with_target_handlerEvents
      handlers_without_target_handlerEvents)

lemma startedSteps_append: "startedSteps (xs @ ys) = startedSteps xs @ startedSteps ys"
  by (induction xs rule: startedSteps.induct) simp_all

lemma failedSteps_append: "failedSteps (xs @ ys) = failedSteps xs @ failedSteps ys"
  by (induction xs rule: failedSteps.induct) simp_all

lemma handlerEvents_no_steps:
  "list_all handlerEvent evs \<Longrightarrow> startedSteps evs = [] \<and> failedSteps evs = []"
proof (induction evs)
  case Nil
  then show ?case by simp
next
  case (Cons e evs)
  then show ?case by (cases e) simp_all
qed






lemma completeInTurn_trace:
  "completeInTurn br i pre clock = Some (c, evp) \<Longrightarrow>
     startedSteps evp = [i..<i + length pre] \<and> failedSteps evp = []"
proof (induction pre arbitrary: i clock evp)
  case Nil
  then show ?case by simp
next
  case (Cons s pre)
  obtain r clock1 hev where ex: "executeStep br s clock = (r, clock1, hev)"
    by (cases "executeStep br s clock")
  with executeStep_handlerEvents[of br s clock] have "list_all handlerEvent hev" by simp
  then have hev: "startedSteps hev = []" "failedSteps hev = []"
    using handlerEvents_no_steps by auto
  from Cons.prems ex obtain evs' where
    rec: "completeInTurn br (i + 1) pre (clock1 + Config_stepDelay) = Some (c, evs')"
    and evp: "evp = StepStarted i # hev @ Delayed Config_stepDelay # evs'"
    by (auto split: option.splits)
  from Cons.IH[OF rec] evp hev show ?case
    by (simp add: startedSteps_append failedSteps_append upt_rec)
qed

lemma runLoop_completed_prefix:
  "completeInTurn br i pre clock = Some (c, evp) \<Longrightarrow> i + length pre < n \<Longrightarrow>
     runLoop br errorPolicy n i (pre @ rest) st clock =
       (case runLoop br errorPolicy n (i + length pre) rest
               (st\<lparr>completedSteps := completedSteps st + length pre\<rparr>) c of
          (st', clock', evs') \<Rightarrow> (st', clock', evp @ evs'))"
proof (induction pre arbitrary: i clock evp st)
  case Nil
  then show ?case by simp
next
  case (Cons s pre)
  obtain r clock1 hev where ex: "executeStep br s clock = (r, clock1, hev)"
    by (cases "executeStep br s clock")
  from Cons.prems(1) ex obtain evs' where
    ok: "r = None"
    and rec: "completeInTurn br (i + 1) pre (clock1 + Config_stepDelay) = Some (c, evs')"
    and evp: "evp = StepStarted i # hev @ Delayed Config_stepDelay # evs'"
    by (auto split: option.splits)
  from Cons.prems(2) have more: "i + 1 < n" "(i + 1) + length pre < n" by simp_all
  define st1 where "st1 = st\<lparr>completedSteps := completedSteps st + 1\<rparr>"
  have st1: "st1\<lparr>completedSteps := completedSteps st1 + length pre\<rparr>
               = st\<lparr>completedSteps := completedSteps st + length (s # pre)\<rparr>"
    by (simp add: st1_def)
  have idx: "i + 1 + length pre = i + length (s # pre)" by simp
  from Cons.IH[OF rec more(2), of st1]
  have ih: "runLoop br errorPolicy n (i + 1) (pre @ rest) st1 (clock1 + Config_stepDelay) =
       (case runLoop br errorPolicy n (i + length (s # pre)) rest
               (st\<lparr>completedSteps := completedSteps st + length (s # pre)\<rparr>) c of
          (st', clock', evs'') \<Rightarrow> (st', clock', evs' @ evs''))"
    by (simp only: st1 idx)
  have "runLoop br errorPolicy n i ((s # pre) @ rest) st clock =
          (case runLoop br errorPolicy n (i + 1) (pre @ rest) st1 (clock1 + Config_stepDelay) of
             (st', clock', evs'') \<Rightarrow>
               (st', clock', StepStarted i # hev @ Delayed Config_stepDelay # evs''))"
    using ex ok more(1) by (simp add: st1_def)
  with ih evp show ?case
    by (simp add: case_prod_beta)
qed

text \<open>
  Every run has a first failing step or none: when the steps do not all complete in
  turn, the list splits into steps that do, a step that then throws, and the rest.
\<close>

lemma first_failure_exists:
  "completeInTurn br i steps clock = None \<Longrightarrow>
     \<exists>pre s post c evp err clock1 hev.
        steps = pre @ s # post \<and> completeInTurn br i pre clock = Some (c, evp)
        \<and> executeStep br s c = (Some err, clock1, hev)"
proof (induction steps arbitrary: i clock)
  case Nil
  then show ?case by simp
next
  case (Cons s rest)
  obtain r clock1 hev where ex: "executeStep br s clock = (r, clock1, hev)"
    by (cases "executeStep br s clock")
  show ?case
  proof (cases r)
    case (Some err)
    with ex have "s # rest = [] @ s # rest \<and> completeInTurn br i [] clock = Some (clock, [])
        \<and> executeStep br s clock = (Some err, clock1, hev)"
      by simp
    then show ?thesis by blast
  next
    case None
    with Cons.prems ex have "completeInTurn br (i + 1) rest (clock1 + Config_stepDelay) = None"
      by (auto split: option.splits)
    from Cons.IH[OF this] obtain pre s' post c evp err clock2 hev' where
      split: "rest = pre @ s' # post"
        "completeInTurn br (i + 1) pre (clock1 + Config_stepDelay) = Some (c, evp)"
        "executeStep br s' c = (Some err, clock2, hev')"
      by blast
    with ex None have "s # rest = (s # pre) @ s' # post
        \<and> completeInTurn br i (s # pre) clock
            = Some (c, StepStarted i # hev @ Delayed Config_stepDelay # evp)
        \<and> executeStep br s' c = (Some err, clock2, hev')"
      by simp
    then show ?thesis by blast
  qed
qed

text \<open>
  C2. Under the \<open>stop\<close> policy (given explicitly or by default), let the steps
  \<open>pre\<close> complete when executed in turn and let the step \<open>s\<close> after them throw
  when its turn comes, so that \<open>s\<close> is the first failing step and \<open>length pre\<close> is
  its zero-based index. Then whatever steps \<open>post\<close> follow, the run returns when
  \<open>s\<close> has failed: \<open>completedSteps\<close> is \<open>length pre\<close> (0 when the first step
  fails), the status is \<open>failed\<close> (also when \<open>s\<close> is the last step, with \<open>post\<close>
  empty), \<open>totalSteps\<close> is the length of the whole list, the message is that of the
  error of \<open>s\<close>, the clock is where the failure of \<open>s\<close> left it, and the trace
  ends with the events of \<open>s\<close>, its failure report and the result message. The steps
  started are those with the indices \<open>0\<close> to \<open>length pre\<close>: no step of \<open>post\<close>
  is executed.
\<close>

theorem executeSteps_stop_outcome:
  assumes "errorPolicyArg = None \<or> errorPolicyArg = Some ''stop''"
    and "completeInTurn br 0 pre clock = Some (c, evp)"
    and "executeStep br s c = (Some err, clock1, hev)"
  shows "executeSteps br (pre @ s # post) taskId taskName errorPolicyArg clock =
           (\<lparr>r_success = False, r_status = FAILED, r_completedSteps = length pre,
              r_totalSteps = length (pre @ s # post), r_duration = clock1 - clock,
              r_message = ErrorMessage err\<rparr>,
            clock1,
            evp @ StepStarted (length pre) # hev
              @ [StepFailed (length pre) err,
                 ResultSent taskId taskName FAILED (ErrorMessage err) (clock1 - clock)])
         \<and> startedSteps (snd (snd (executeSteps br (pre @ s # post) taskId taskName
                                      errorPolicyArg clock)))
             = [0..<Suc (length pre)]"
proof -
  from assms(1) have p: "(case errorPolicyArg of None \<Rightarrow> ''stop'' | Some p \<Rightarrow> p) = ''stop''"
    by auto
  let ?st0 = "\<lparr>completedSteps = 0, lastError = None, hasFailedSteps = False\<rparr>"
  have fail: "runLoop br ''stop'' (length (pre @ s # post)) (0 + length pre) (s # post)
                (?st0\<lparr>completedSteps := completedSteps ?st0 + length pre\<rparr>) c
              = (?st0\<lparr>completedSteps := length pre, lastError := Some err\<rparr>, clock1,
                 StepStarted (length pre) # hev @ [StepFailed (length pre) err])"
    using assms(3) by simp
  have "0 + length pre < length (pre @ s # post)" by simp
  from runLoop_completed_prefix[OF assms(2) this, of "''stop''" "s # post" ?st0] fail
  have loop: "runLoop br ''stop'' (length (pre @ s # post)) 0 (pre @ s # post) ?st0 clock
              = (?st0\<lparr>completedSteps := length pre, lastError := Some err\<rparr>, clock1,
                 evp @ StepStarted (length pre) # hev @ [StepFailed (length pre) err])"
    by simp
  have run: "executeSteps br (pre @ s # post) taskId taskName errorPolicyArg clock =
           (\<lparr>r_success = False, r_status = FAILED, r_completedSteps = length pre,
              r_totalSteps = length (pre @ s # post), r_duration = clock1 - clock,
              r_message = ErrorMessage err\<rparr>,
            clock1,
            evp @ StepStarted (length pre) # hev
              @ [StepFailed (length pre) err,
                 ResultSent taskId taskName FAILED (ErrorMessage err) (clock1 - clock)])"
    unfolding executeSteps_def p Let_def loop by simp
  from executeStep_handlerEvents[of br s c] assms(3) have "list_all handlerEvent hev" by simp
  then have hev: "startedSteps hev = []"
    using handlerEvents_no_steps by auto
  from completeInTurn_trace[OF assms(2)] have "startedSteps evp = [0..<length pre]" by simp
  with hev have "startedSteps (evp @ StepStarted (length pre) # hev
              @ [StepFailed (length pre) err,
                 ResultSent taskId taskName FAILED (ErrorMessage err) (clock1 - clock)])
            = [0..<Suc (length pre)]"
    by (simp add: startedSteps_append)
  with run show ?thesis by simp
qed

theorem executeSteps_stop_outcome_witness:
  "executeSteps
       (\<lambda>t. \<lparr>querySelector = (\<lambda>q. if q = ''#b'' then Found 7 else NoMatch),
              evaluateXPath = (\<lambda>q. NoMatch), activeElement = None,
              evalExpression = (\<lambda>x. Falsy)\<rparr>)
       ([\<lparr>step_type = ''navigate'', step_selectors = None, step_value = [], step_key = [],
          step_x = None, step_y = None, step_timeout = None, step_expression = [],
          step_url = ''https://x''\<rparr>]
        @ \<lparr>step_type = ''click'', step_selectors = Some [], step_value = [], step_key = [],
          step_x = None, step_y = None, step_timeout = None, step_expression = [],
          step_url = []\<rparr>
        # [\<lparr>step_type = ''change'', step_selectors = Some [Alternatives [''#b'']],
            step_value = ''v'', step_key = [], step_x = None, step_y = None,
            step_timeout = None, step_expression = [], step_url = []\<rparr>])
       ''t'' ''n'' (Some ''stop'') 0
     = (\<lparr>r_success = False, r_status = FAILED, r_completedSteps = 1, r_totalSteps = 3,
          r_duration = 500, r_message = ErrorMessage ClickTargetNotFound\<rparr>,
        500,
        [StepStarted 0, Delayed Config_stepDelay] @ StepStarted 1 # []
          @ [StepFailed 1 ClickTargetNotFound,
             ResultSent ''t'' ''n'' FAILED (ErrorMessage ClickTargetNotFound) 500])"
proof -
  let ?br = "\<lambda>t::nat. \<lparr>querySelector = (\<lambda>q. if q = ''#b'' then Found 7 else NoMatch),
              evaluateXPath = (\<lambda>q. NoMatch), activeElement = None,
              evalExpression = (\<lambda>x. Falsy)\<rparr>"
  let ?nav = "\<lparr>step_type = ''navigate'', step_selectors = None, step_value = [], step_key = [],
          step_x = None, step_y = None, step_timeout = None, step_expression = [],
          step_url = ''https://x''\<rparr>"
  let ?click = "\<lparr>step_type = ''click'', step_selectors = Some [], step_value = [], step_key = [],
          step_x = None, step_y = None, step_timeout = None, step_expression = [],
          step_url = []\<rparr>"
  have pol: "Some ''stop'' = None \<or> Some ''stop'' = Some ''stop''" by simp
  have pre: "completeInTurn ?br 0 [?nav] 0 = Some (500, [StepStarted 0, Delayed Config_stepDelay])"
    by (simp add: executeStep_def handleNavigate_def Config_stepDelay_def)
  have s: "executeStep ?br ?click 500 = (Some ClickTargetNotFound, 500, [])"
    by (simp add: executeStep_def handleClick_def findElement_def)
  from executeSteps_stop_outcome[OF pol pre s] show ?thesis
    by simp
qed











end
